theory Spec2Isabelle
  imports Main "HOL-Library.Word"
begin

section \<open>Data model of \<open>solana.hpp\<close>\<close>

text \<open>
  Bytes are \<open>uint8_t\<close>, an 8-bit word whose arithmetic wraps around. Every failure of
  the source is a \<open>std::runtime_error\<close> carrying a message; the model has one error
  value per message.
\<close>

type_synonym u8 = "8 word"

datatype error =
    MaxSeedLengthExceeded    \<comment> \<open>"Max seed length exceeded"\<close>
  | NoViableNonce            \<comment> \<open>"Unable to find a viable program address nonce"\<close>
  | InvalidSecretKey         \<comment> \<open>"invalid secret key"\<close>
  | NoInstructions           \<comment> \<open>"No instructions provided"\<close>
  | NoSigners                \<comment> \<open>"No signers provided"\<close>
  | UnknownAccount           \<comment> \<open>"Unknown account"\<close>
  | AlreadySerialized        \<comment> \<open>"Message is already serialized"\<close>
  | NoRequiredSignature      \<comment> \<open>"Message must have at least one signature"\<close>
  | JsonException            \<comment> \<open>an exception of the JSON library while decoding\<close>

definition MAX_SEED_LENGTH :: nat where
  "MAX_SEED_LENGTH = 32"

definition PUBLIC_KEY_LENGTH :: nat where
  "PUBLIC_KEY_LENGTH = 32"

text \<open>
  \<open>struct PublicKey\<close> has the single member \<open>std::array<uint8_t, 32> bytes\<close>. Its
  \<open>operator==\<close> compares all 32 elements, which is equality of the arrays; the model
  uses HOL equality on the record. \<open>wf_key\<close> states the length the array type fixes.
\<close>

record PublicKey =
  bytes :: "u8 list"

definition wf_key :: "PublicKey \<Rightarrow> bool" where
  "wf_key k \<longleftrightarrow> length (bytes k) = PUBLIC_KEY_LENGTH"

text \<open>\<open>PublicKey()\<close>: all 32 bytes zero.\<close>

definition PublicKey_default :: PublicKey where
  "PublicKey_default = \<lparr>bytes = replicate PUBLIC_KEY_LENGTH 0\<rparr>"

text \<open>\<open>PublicKey(const uint8_t* value)\<close>: copies the first 32 bytes at \<open>value\<close>.\<close>

definition PublicKey_of_ptr :: "u8 list \<Rightarrow> PublicKey" where
  "PublicKey_of_ptr val = \<lparr>bytes = take PUBLIC_KEY_LENGTH val\<rparr>"

text \<open>
  \<open>operator<\<close>: the first differing byte decides; equal arrays are not less.
\<close>

fun bytes_less :: "u8 list \<Rightarrow> u8 list \<Rightarrow> bool" where
  "bytes_less (a # as) (b # bs) =
     (if a < b then True else if a > b then False else bytes_less as bs)"
| "bytes_less _ _ = False"

definition PublicKey_less :: "PublicKey \<Rightarrow> PublicKey \<Rightarrow> bool" where
  "PublicKey_less a b = bytes_less (bytes a) (bytes b)"

text \<open>
  \<open>std::find\<close> over a vector, as the distance of the returned iterator from
  \<open>begin()\<close>: the position of the first element that matches, or the length of the vector
  for \<open>end()\<close>.
\<close>

fun std_find :: "('a \<Rightarrow> bool) \<Rightarrow> 'a list \<Rightarrow> nat" where
  "std_find p [] = 0"
| "std_find p (x # xs) = (if p x then 0 else Suc (std_find p xs))"

subsection \<open>Base-58 text form of an address\<close>

text \<open>
  Modelled from the spec: the base-58 codec \<open>base58::b58enc\<close> and \<open>base58::b58tobin\<close>
  of \<open>many.hpp\<close>, which is not among the sources. The spec only names a "base-58 text
  codec" that "round-trips any 32-byte value". The model is the usual codec: the bytes
  are a big-endian number, written in base 58 with the digits of \<open>b58digits_ordered\<close>,
  most significant digit first, after one \<open>1\<close> for every leading zero byte. Decoding
  reads the digits as a number and writes it big-endian over the whole output buffer of
  \<open>binsz\<close> bytes; it fails on a character that is no digit and on a number that does not
  fit.
\<close>

definition b58digits_ordered :: string where
  "b58digits_ordered = ''123456789ABCDEFGHJKLMNPQRSTUVWXYZabcdefghijkmnopqrstuvwxyz''"

definition nat_of_bytes :: "u8 list \<Rightarrow> nat" where
  "nat_of_bytes bs = foldl (\<lambda>n b. n * 256 + unat b) 0 bs"

fun bytes_of_nat :: "nat \<Rightarrow> nat \<Rightarrow> u8 list" where
  "bytes_of_nat 0 n = []"
| "bytes_of_nat (Suc k) n = bytes_of_nat k (n div 256) @ [of_nat (n mod 256)]"

fun digits58 :: "nat \<Rightarrow> nat list" where
  "digits58 n = (if n = 0 then [] else n mod 58 # digits58 (n div 58))"

declare digits58.simps [simp del]

definition b58enc :: "u8 list \<Rightarrow> string" where
  "b58enc bin =
     replicate (length (takeWhile (\<lambda>b. b = 0) bin)) CHR ''1'' @
     map (\<lambda>d. b58digits_ordered ! d) (rev (digits58 (nat_of_bytes bin)))"

definition b58_digit :: "char \<Rightarrow> nat option" where
  "b58_digit c =
     (let i = std_find (\<lambda>x. x = c) b58digits_ordered
      in if i < length b58digits_ordered then Some i else None)"

fun b58_value :: "nat \<Rightarrow> string \<Rightarrow> nat option" where
  "b58_value n [] = Some n"
| "b58_value n (c # cs) =
     (case b58_digit c of None \<Rightarrow> None | Some d \<Rightarrow> b58_value (n * 58 + d) cs)"

definition b58tobin :: "nat \<Rightarrow> string \<Rightarrow> u8 list option" where
  "b58tobin binsz b58 =
     (case b58_value 0 b58 of
        None \<Rightarrow> None
      | Some n \<Rightarrow> if n < 256 ^ binsz then Some (bytes_of_nat binsz n) else None)"

text \<open>
  \<open>to_base58\<close> returns what \<open>b58enc\<close> writes for the 32 bytes into the 45 bytes of
  \<open>temp\<close>, which hold the text of a 32-byte value and its terminator
  (\<open>to_base58_fits\<close>). \<open>PublicKey(const std::string&)\<close> has \<open>b58tobin\<close> fill \<open>bytes\<close> and ignores the status
  it returns: when decoding fails, \<open>bytes\<close> keeps the indeterminate content \<open>uninit\<close>
  the member is created with.
\<close>

definition to_base58 :: "PublicKey \<Rightarrow> string" where
  "to_base58 k = b58enc (bytes k)"

definition PublicKey_of_base58 :: "u8 list \<Rightarrow> string \<Rightarrow> PublicKey" where
  "PublicKey_of_base58 uninit val =
     (case b58tobin PUBLIC_KEY_LENGTH val of
        Some bin \<Rightarrow> \<lparr>bytes = bin\<rparr>
      | None \<Rightarrow> \<lparr>bytes = uninit\<rparr>)"

subsection \<open>Cryptographic primitives\<close>

text \<open>
  SHA-256 and the ed25519 group operations belong to libsodium, not to this program.
  They are parameters of the model: a record of the functions the source calls, each
  returning what the C function returns (and writes through its output pointer).
\<close>

record primitives =
  crypto_hash_sha256 :: "u8 list \<Rightarrow> u8 list"
  ge25519_is_canonical :: "u8 list \<Rightarrow> int"
  ge25519_frombytes :: "u8 list \<Rightarrow> int"
  crypto_sign_ed25519_sk_to_pk :: "u8 list \<Rightarrow> int \<times> u8 list"

text \<open>The digest has \<open>crypto_hash_sha256_BYTES = 32\<close> bytes (a \<open>static_assert\<close> of the source).\<close>

definition sha256_sized :: "primitives \<Rightarrow> bool" where
  "sha256_sized P \<longleftrightarrow> (\<forall>m. length (crypto_hash_sha256 P m) = PUBLIC_KEY_LENGTH)"

definition is_on_curve :: "primitives \<Rightarrow> PublicKey \<Rightarrow> bool" where
  "is_on_curve P k =
     (if ge25519_is_canonical P (bytes k) = 0 \<or> ge25519_frombytes P (bytes k) \<noteq> 0
      then False else True)"

text \<open>
  A stand-in for the primitives, to run the model on concrete inputs: the digest is 31
  zero bytes followed by the sum of the message bytes, a key is canonical unless its last
  byte is a multiple of 4, every key decodes, and the public key of a secret key is its
  second half.
\<close>

definition test_primitives :: primitives where
  "test_primitives =
     \<lparr>crypto_hash_sha256 = (\<lambda>m. replicate 31 0 @ [sum_list m]),
      ge25519_is_canonical = (\<lambda>k. if unat (last k) mod 4 = 0 then 0 else 1),
      ge25519_frombytes = (\<lambda>k. 0),
      crypto_sign_ed25519_sk_to_pk = (\<lambda>sk. (0, drop 32 sk))\<rparr>"

subsection \<open>Program-derived addresses\<close>

definition ProgramDerivedAddress :: "u8 list" where
  "ProgramDerivedAddress = map of_char ''ProgramDerivedAddress''"

text \<open>
  The loop over the seeds of \<open>create_program_address\<close>: it throws at the first seed
  longer than \<open>MAX_SEED_LENGTH\<close> and appends every other seed to the buffer.
\<close>

fun append_seeds :: "u8 list \<Rightarrow> u8 list list \<Rightarrow> error + u8 list" where
  "append_seeds buffer [] = Inr buffer"
| "append_seeds buffer (seed # seeds) =
     (if length seed > MAX_SEED_LENGTH then Inl MaxSeedLengthExceeded
      else append_seeds (buffer @ seed) seeds)"

definition create_program_address ::
  "primitives \<Rightarrow> u8 list list \<Rightarrow> PublicKey \<Rightarrow> error + PublicKey option" where
  "create_program_address P seeds program_id =
     (case append_seeds [] seeds of
        Inl e \<Rightarrow> Inl e
      | Inr buffer \<Rightarrow>
          (let buffer = buffer @ bytes program_id;
               buffer = buffer @ ProgramDerivedAddress;
               hash = crypto_hash_sha256 P buffer;
               pubkey = PublicKey_of_ptr hash
           in if is_on_curve P pubkey then Inr None else Inr (Some pubkey)))"

text \<open>
  \<open>find_program_address\<close>: \<open>uint8_t nonce = 255; while (nonce != 0) ...\<close>. The loop
  state is the nonce; it ends because the nonce decreases.
\<close>

function find_program_address_loop ::
  "primitives \<Rightarrow> u8 list list \<Rightarrow> PublicKey \<Rightarrow> u8 \<Rightarrow> error + (PublicKey \<times> u8)" where
  "find_program_address_loop P seeds programId nonce =
     (if nonce \<noteq> 0 then
        (case create_program_address P (seeds @ [[nonce]]) programId of
           Inl e \<Rightarrow> Inl e
         | Inr (Some address) \<Rightarrow> Inr (address, nonce)
         | Inr None \<Rightarrow> find_program_address_loop P seeds programId (nonce - 1))
      else Inl NoViableNonce)"
  by pat_completeness auto
termination
  by (relation "measure (\<lambda>(P, seeds, programId, nonce). unat nonce)")
     (simp_all add: unat_minus_one unat_gt_0)

definition find_program_address ::
  "primitives \<Rightarrow> u8 list list \<Rightarrow> PublicKey \<Rightarrow> error + (PublicKey \<times> u8)" where
  "find_program_address P seeds programId = find_program_address_loop P seeds programId 255"

text \<open>
  The digest of the concatenation the spec describes: all seeds in order, the program's
  bytes, the ASCII marker.
\<close>

definition pda_digest :: "primitives \<Rightarrow> u8 list list \<Rightarrow> PublicKey \<Rightarrow> u8 list" where
  "pda_digest P seeds program_id =
     crypto_hash_sha256 P (concat seeds @ bytes program_id @ ProgramDerivedAddress)"


subsection \<open>Keypair\<close>

record Keypair =
  secretKey :: "u8 list"
  publicKey :: PublicKey

text \<open>
  \<open>Keypair(std::array<char, PUBLIC_KEY_LENGTH> secretKey, bool skipValidation = false)\<close>.
  The parameter shadows the member \<open>secretKey\<close>, which the constructor never assigns:
  the member keeps the indeterminate content \<open>uninit\<close> it is created with. The member
  \<open>publicKey\<close> is default-constructed (all zero) and is the output buffer of
  \<open>crypto_sign_ed25519_sk_to_pk\<close>, called on the parameter only when validation is not
  skipped; the constructor throws when that call returns non-zero. (\<open>sodium_init\<close>
  is assumed to succeed.)
\<close>

definition Keypair_of_secret :: "primitives \<Rightarrow> u8 list \<Rightarrow> u8 list \<Rightarrow> bool \<Rightarrow> error + Keypair" where
  "Keypair_of_secret P uninit secretKey_arg skipValidation =
     (if \<not> skipValidation then
        (case crypto_sign_ed25519_sk_to_pk P secretKey_arg of
           (rc, pk) \<Rightarrow>
             if rc \<noteq> 0 then Inl InvalidSecretKey
             else Inr \<lparr>secretKey = uninit, publicKey = \<lparr>bytes = pk\<rparr>\<rparr>)
      else Inr \<lparr>secretKey = uninit, publicKey = PublicKey_default\<rparr>)"

subsection \<open>Transactions and compiled messages\<close>

record AccountMeta =
  pubkey :: PublicKey
  isSigner :: bool
  isWritable :: bool

record Instruction =
  programId :: PublicKey
  accounts :: "AccountMeta list"
  data :: "u8 list"

record TransactionMessageHeader =
  numRequiredSignatures :: u8
  numReadonlySignedAccounts :: u8
  numReadonlyUnsignedAccounts :: u8

text \<open>
  \<open>CompiledTransaction::Message::Instruction\<close>; its members \<open>accounts\<close> and \<open>data\<close>
  carry the prefix \<open>c_\<close> here, the names being taken by \<open>Instruction\<close>.
\<close>

record CompiledInstruction =
  c_accounts :: "u8 list"
  c_data :: "u8 list"
  programIdIndex :: u8

record CompiledMessage =
  header :: TransactionMessageHeader
  accountKeys :: "PublicKey list"
  recentBlockhash :: PublicKey
  instructions :: "CompiledInstruction list"

text \<open>
  \<open>Transaction::Message\<close>, with the prefix \<open>tx_\<close>. \<open>compile\<close> reads the instructions
  and the blockhash only.
\<close>

record TransactionMessage =
  tx_header :: TransactionMessageHeader
  tx_accountKeys :: "PublicKey list"
  tx_recentBlockhash :: PublicKey
  tx_instructions :: "Instruction list"

subsection \<open>The message compiler\<close>

text \<open>
  First loop of \<open>compile\<close>: every account of every instruction is pushed the first time
  its address is seen (\<open>AccountMeta::operator==\<close> compares the addresses only).
\<close>

fun add_accounts :: "AccountMeta list \<Rightarrow> AccountMeta list \<Rightarrow> AccountMeta list" where
  "add_accounts accountMetas [] = accountMetas"
| "add_accounts accountMetas (account # rest) =
     (if std_find (\<lambda>m. pubkey m = pubkey account) accountMetas = length accountMetas
      then add_accounts (accountMetas @ [account]) rest
      else add_accounts accountMetas rest)"

fun collect_accounts :: "AccountMeta list \<Rightarrow> Instruction list \<Rightarrow> AccountMeta list" where
  "collect_accounts accountMetas [] = accountMetas"
| "collect_accounts accountMetas (instruction # rest) =
     collect_accounts (add_accounts accountMetas (accounts instruction)) rest"

text \<open>
  Second loop: a program id is pushed, as a non-signer and non-writable entry, the first
  time it is seen in \<open>programIds\<close>, the list of the program ids pushed so far.
\<close>

fun collect_programs ::
  "PublicKey list \<Rightarrow> AccountMeta list \<Rightarrow> Instruction list \<Rightarrow> AccountMeta list" where
  "collect_programs programIds accountMetas [] = accountMetas"
| "collect_programs programIds accountMetas (instruction # rest) =
     (if std_find (\<lambda>p. p = programId instruction) programIds = length programIds
      then collect_programs (programIds @ [programId instruction])
             (accountMetas @
                [\<lparr>pubkey = programId instruction, isSigner = False, isWritable = False\<rparr>])
             rest
      else collect_programs programIds accountMetas rest)"

text \<open>
  The comparator given to \<open>std::sort\<close>: signers first, then writable accounts, then the
  address order. Two entries that it does not order either way have the same flags and
  the same 32 bytes, so the sorted vector does not depend on the sorting algorithm; the
  model sorts by insertion.
\<close>

definition meta_before :: "AccountMeta \<Rightarrow> AccountMeta \<Rightarrow> bool" where
  "meta_before a b =
     (if isSigner a \<noteq> isSigner b then isSigner a
      else if isWritable a \<noteq> isWritable b then isWritable a
      else PublicKey_less (pubkey a) (pubkey b))"

fun insert_meta :: "AccountMeta \<Rightarrow> AccountMeta list \<Rightarrow> AccountMeta list" where
  "insert_meta a [] = [a]"
| "insert_meta a (b # bs) = (if meta_before a b then a # b # bs else b # insert_meta a bs)"

fun sort_metas :: "AccountMeta list \<Rightarrow> AccountMeta list" where
  "sort_metas [] = []"
| "sort_metas (a # as) = insert_meta a (sort_metas as)"

text \<open>
  The fee payer moves to the front: found, its entry is erased and re-inserted first with
  both flags set; not found, a new entry is inserted first.
\<close>

definition promote_fee_payer :: "PublicKey \<Rightarrow> AccountMeta list \<Rightarrow> AccountMeta list" where
  "promote_fee_payer fee_payer accountMetas =
     (let feePayerIndex = std_find (\<lambda>m. pubkey m = fee_payer) accountMetas
      in if feePayerIndex \<noteq> length accountMetas then
           (let payerMeta = accountMetas ! feePayerIndex;
                erased = take feePayerIndex accountMetas @ drop (Suc feePayerIndex) accountMetas;
                payerMeta = payerMeta\<lparr>isSigner := True, isWritable := True\<rparr>
            in payerMeta # erased)
         else \<lparr>pubkey = fee_payer, isSigner = True, isWritable = True\<rparr> # accountMetas)"

text \<open>
  The loop that splits signing from non-signing keys and counts the header values. The
  three counters are \<open>uint8_t\<close>: \<open>+= 1\<close> wraps at 256.
\<close>

fun split_keys ::
  "AccountMeta list \<Rightarrow> TransactionMessageHeader \<Rightarrow> PublicKey list \<Rightarrow> PublicKey list \<Rightarrow>
   TransactionMessageHeader \<times> PublicKey list \<times> PublicKey list" where
  "split_keys [] h signedKeys unsignedKeys = (h, signedKeys, unsignedKeys)"
| "split_keys (accountMeta # rest) h signedKeys unsignedKeys =
     (if isSigner accountMeta then
        split_keys rest
          (h\<lparr>numRequiredSignatures := numRequiredSignatures h + 1,
             numReadonlySignedAccounts :=
               (if \<not> isWritable accountMeta then numReadonlySignedAccounts h + 1
                else numReadonlySignedAccounts h)\<rparr>)
          (signedKeys @ [pubkey accountMeta]) unsignedKeys
      else
        split_keys rest
          (h\<lparr>numReadonlyUnsignedAccounts :=
               (if \<not> isWritable accountMeta then numReadonlyUnsignedAccounts h + 1
                else numReadonlyUnsignedAccounts h)\<rparr>)
          signedKeys (unsignedKeys @ [pubkey accountMeta]))"

text \<open>
  The last loop maps addresses to positions in \<open>accountKeys\<close>. An account that is not
  found throws; the program id is looked up without a test against \<open>end()\<close>. Positions
  are stored in \<open>uint8_t\<close>, so they are cut to 8 bits.
\<close>

fun account_indexes :: "PublicKey list \<Rightarrow> AccountMeta list \<Rightarrow> u8 list \<Rightarrow> error + u8 list" where
  "account_indexes account_keys [] accountsIndexes = Inr accountsIndexes"
| "account_indexes account_keys (account # rest) accountsIndexes =
     (let index = std_find (\<lambda>k. k = pubkey account) account_keys
      in if index = length account_keys then Inl UnknownAccount
         else account_indexes account_keys rest (accountsIndexes @ [of_nat index]))"

fun compile_instructions ::
  "PublicKey list \<Rightarrow> Instruction list \<Rightarrow> CompiledInstruction list \<Rightarrow>
   error + CompiledInstruction list" where
  "compile_instructions account_keys [] compiledInstructions = Inr compiledInstructions"
| "compile_instructions account_keys (instruction # rest) compiledInstructions =
     (case account_indexes account_keys (accounts instruction) [] of
        Inl e \<Rightarrow> Inl e
      | Inr accountsIndexes \<Rightarrow>
          compile_instructions account_keys rest
            (compiledInstructions @
               [\<lparr>c_accounts = accountsIndexes,
                 c_data = data instruction,
                 programIdIndex =
                   of_nat (std_find (\<lambda>k. k = programId instruction) account_keys)\<rparr>]))"

text \<open>
  The account-meta list of \<open>compile\<close> once sorted, and then once the fee payer
  \<open>signers[0].publicKey\<close> has moved to the front.
\<close>

definition compile_sorted_metas :: "TransactionMessage \<Rightarrow> AccountMeta list" where
  "compile_sorted_metas msg =
     (let accountMetas = collect_accounts [] (tx_instructions msg);
          accountMetas = collect_programs [] accountMetas (tx_instructions msg)
      in sort_metas accountMetas)"

definition compile_account_metas :: "TransactionMessage \<Rightarrow> Keypair list \<Rightarrow> AccountMeta list" where
  "compile_account_metas msg signers =
     (let accountMetas = compile_sorted_metas msg;
          fee_payer = publicKey (signers ! 0)
      in promote_fee_payer fee_payer accountMetas)"

definition header_zero :: TransactionMessageHeader where
  "header_zero = \<lparr>numRequiredSignatures = 0, numReadonlySignedAccounts = 0,
                  numReadonlyUnsignedAccounts = 0\<rparr>"

definition compile :: "TransactionMessage \<Rightarrow> Keypair list \<Rightarrow> error + CompiledMessage" where
  "compile msg signers =
     (if tx_instructions msg = [] then Inl NoInstructions
      else if length signers = 0 then Inl NoSigners
      else
        (case split_keys (compile_account_metas msg signers) header_zero [] [] of
           (h, signedKeys, unsignedKeys) \<Rightarrow>
             (let account_keys = signedKeys @ unsignedKeys
              in case compile_instructions account_keys (tx_instructions msg) [] of
                   Inl e \<Rightarrow> Inl e
                 | Inr compiledInstructions \<Rightarrow>
                     Inr \<lparr>header = h, accountKeys = account_keys,
                          recentBlockhash = tx_recentBlockhash msg,
                          instructions = compiledInstructions\<rparr>)))"

text \<open>
  The final account key list of \<open>compile\<close>: the signing keys followed by the others, as
  the splitting loop leaves them. It is the \<open>accountKeys\<close> of the message returned.
\<close>

definition compile_account_keys :: "TransactionMessage \<Rightarrow> Keypair list \<Rightarrow> PublicKey list" where
  "compile_account_keys msg signers =
     (case split_keys (compile_account_metas msg signers) header_zero [] [] of
        (h, signedKeys, unsignedKeys) \<Rightarrow> signedKeys @ unsignedKeys)"

text \<open>
  Concrete inputs for the compiler. \<open>test_key b\<close> is the address whose 32 bytes are all
  \<open>b\<close>. \<open>test_transaction\<close> has one instruction over three accounts, the fee payer among
  them as a read-only non-signer. \<open>program_as_account\<close> passes the program of its
  instruction as an account of that instruction. \<open>many_signers\<close> has one instruction
  with 255 signing accounts, none of them the fee payer.
\<close>

definition test_key :: "u8 \<Rightarrow> PublicKey" where
  "test_key b = \<lparr>bytes = replicate 32 b\<rparr>"

definition test_payer :: Keypair where
  "test_payer = \<lparr>secretKey = replicate 64 0, publicKey = test_key 1\<rparr>"

definition test_transaction :: TransactionMessage where
  "test_transaction =
     \<lparr>tx_header = header_zero, tx_accountKeys = [], tx_recentBlockhash = test_key 3,
      tx_instructions =
        [\<lparr>programId = test_key 9,
          accounts = [\<lparr>pubkey = test_key 5, isSigner = False, isWritable = True\<rparr>,
                      \<lparr>pubkey = test_key 4, isSigner = True, isWritable = False\<rparr>,
                      \<lparr>pubkey = test_key 1, isSigner = False, isWritable = False\<rparr>],
          data = [7, 8]\<rparr>]\<rparr>"

definition program_as_account :: TransactionMessage where
  "program_as_account =
     \<lparr>tx_header = header_zero, tx_accountKeys = [], tx_recentBlockhash = test_key 3,
      tx_instructions =
        [\<lparr>programId = test_key 9,
          accounts = [\<lparr>pubkey = test_key 9, isSigner = False, isWritable = True\<rparr>],
          data = []\<rparr>]\<rparr>"

definition signer_key :: "nat \<Rightarrow> PublicKey" where
  "signer_key i = \<lparr>bytes = replicate 31 0 @ [of_nat i]\<rparr>"

definition signer_meta :: "nat \<Rightarrow> AccountMeta" where
  "signer_meta i = \<lparr>pubkey = signer_key i, isSigner = True, isWritable = True\<rparr>"

definition many_signers :: TransactionMessage where
  "many_signers =
     \<lparr>tx_header = header_zero, tx_accountKeys = [], tx_recentBlockhash = test_key 3,
      tx_instructions =
        [\<lparr>programId = test_key 9, accounts = map signer_meta [0..<255], data = []\<rparr>]\<rparr>"

subsection \<open>The result envelope\<close>

text \<open>
  A JSON value of the JSON library the source decodes with (numbers are integers here).
  \<open>contains\<close> is false on anything but an object; the \<open>const\<close> \<open>operator[]\<close> and
  \<open>get<T>\<close> leave by an exception (or an assertion) when the key is missing or the
  value has the wrong type. \<open>get<int64_t>\<close> reduces the number to 64 signed bits.
\<close>

datatype json =
    JNull
  | JBool bool
  | JNumber int
  | JString string
  | JArray "json list"
  | JObject "(string \<times> json) list"















subsection \<open>The wire serializer\<close>

text \<open>
  Modelled from the spec: \<open>encode_length\<close>, a helper of \<open>many.hpp\<close>, which is not
  among the sources. The spec's compact length: values 0 to 127 are one byte, 128 to
  16383 two bytes, and larger values continue the same base-128 continuation scheme (seven
  bits per byte, low bits first, the top bit set on every byte but the last).
\<close>

fun encode_length :: "nat \<Rightarrow> u8 list" where
  "encode_length n =
     (if n < 128 then [of_nat n]
      else of_nat (n mod 128 + 128) # encode_length (n div 128))"

declare encode_length.simps [simp del]

text \<open>
  \<open>CompiledTransaction::Message::serialize\<close> appends to the buffer it is given. Both
  guards leave by \<open>throw new std::runtime_error(...)\<close>. The loops over the keys, over the
  account indexes of an instruction and over the instructions each carry the buffer.
\<close>

fun serialize_keys :: "u8 list \<Rightarrow> PublicKey list \<Rightarrow> u8 list" where
  "serialize_keys serialized_message [] = serialized_message"
| "serialize_keys serialized_message (key # rest) =
     serialize_keys (serialized_message @ bytes key) rest"

fun serialize_account_indexes :: "u8 list \<Rightarrow> u8 list \<Rightarrow> u8 list" where
  "serialize_account_indexes serialized_message [] = serialized_message"
| "serialize_account_indexes serialized_message (accountIndex # rest) =
     serialize_account_indexes (serialized_message @ [accountIndex]) rest"

definition serialize_instruction :: "u8 list \<Rightarrow> CompiledInstruction \<Rightarrow> u8 list" where
  "serialize_instruction serialized_message instruction =
     (let buf = serialized_message @ [programIdIndex instruction];
          keyIndicesCount = encode_length (length (c_accounts instruction));
          buf = buf @ keyIndicesCount;
          buf = serialize_account_indexes buf (c_accounts instruction);
          dataLength = encode_length (length (c_data instruction));
          buf = buf @ dataLength
      in buf @ c_data instruction)"

fun serialize_instructions :: "u8 list \<Rightarrow> CompiledInstruction list \<Rightarrow> u8 list" where
  "serialize_instructions serialized_message [] = serialized_message"
| "serialize_instructions serialized_message (instruction # rest) =
     serialize_instructions (serialize_instruction serialized_message instruction) rest"

definition serialize :: "CompiledMessage \<Rightarrow> u8 list \<Rightarrow> error + u8 list" where
  "serialize m serialized_message =
     (if length serialized_message > 0 then Inl AlreadySerialized
      else if numRequiredSignatures (header m) = 0 then Inl NoRequiredSignature
      else
        (let buf = serialized_message @ [numRequiredSignatures (header m)];
             buf = buf @ [numReadonlySignedAccounts (header m)];
             buf = buf @ [numReadonlyUnsignedAccounts (header m)];
             keyCount = encode_length (length (accountKeys m));
             buf = buf @ keyCount;
             buf = serialize_keys buf (accountKeys m);
             buf = buf @ bytes (recentBlockhash m);
             instructionCount = encode_length (length (instructions m));
             buf = buf @ instructionCount
         in Inr (serialize_instructions buf (instructions m))))"

text \<open>
  The byte layout as the spec words it: per instruction, and for the whole message.
\<close>

definition instruction_layout :: "CompiledInstruction \<Rightarrow> u8 list" where
  "instruction_layout i =
     [programIdIndex i] @ encode_length (length (c_accounts i)) @ c_accounts i @
     encode_length (length (c_data i)) @ c_data i"

definition message_layout :: "CompiledMessage \<Rightarrow> u8 list" where
  "message_layout m =
     [numRequiredSignatures (header m), numReadonlySignedAccounts (header m),
      numReadonlyUnsignedAccounts (header m)] @
     encode_length (length (accountKeys m)) @
     concat (map bytes (accountKeys m)) @
     bytes (recentBlockhash m) @
     encode_length (length (instructions m)) @
     concat (map instruction_layout (instructions m))"

text \<open>Two compiled messages to run the serializer on.\<close>

definition test_message :: CompiledMessage where
  "test_message =
     \<lparr>header = \<lparr>numRequiredSignatures = 1, numReadonlySignedAccounts = 0,
                 numReadonlyUnsignedAccounts = 1\<rparr>,
      accountKeys = [test_key 1, test_key 2],
      recentBlockhash = test_key 3,
      instructions = [\<lparr>c_accounts = [0], c_data = [7, 8], programIdIndex = 1\<rparr>]\<rparr>"

definition test_message_unsigned :: CompiledMessage where
  "test_message_unsigned = test_message\<lparr>header := header_zero\<rparr>"

section \<open>Program-derived addresses: properties\<close>

lemma append_seeds_fails:
  "\<exists>s\<in>set seeds. length s > MAX_SEED_LENGTH \<Longrightarrow>
   append_seeds buffer seeds = Inl MaxSeedLengthExceeded"
  by (induction seeds arbitrary: buffer) auto

lemma append_seeds_concat:
  "\<forall>s\<in>set seeds. length s \<le> MAX_SEED_LENGTH \<Longrightarrow>
   append_seeds buffer seeds = Inr (buffer @ concat seeds)"
  by (induction seeds arbitrary: buffer) auto

lemma append_seeds_Inl:
  "append_seeds buffer seeds = Inl e \<Longrightarrow>
   e = MaxSeedLengthExceeded \<and> (\<exists>s\<in>set seeds. length s > MAX_SEED_LENGTH)"
  by (induction seeds arbitrary: buffer) (auto split: if_splits)

lemma create_program_address_long_seed:
  "\<exists>s\<in>set seeds. length s > MAX_SEED_LENGTH \<Longrightarrow>
   create_program_address P seeds prog = Inl MaxSeedLengthExceeded"
  by (simp add: create_program_address_def append_seeds_fails)

lemma create_program_address_digest:
  assumes "sha256_sized P" and "\<forall>s\<in>set seeds. length s \<le> MAX_SEED_LENGTH"
  shows "create_program_address P seeds prog =
           (if is_on_curve P \<lparr>bytes = pda_digest P seeds prog\<rparr> then Inr None
            else Inr (Some \<lparr>bytes = pda_digest P seeds prog\<rparr>))"
proof -
  have "append_seeds [] seeds = Inr (concat seeds)"
    using append_seeds_concat [OF assms(2), of "[]"] by simp
  moreover have "take PUBLIC_KEY_LENGTH (pda_digest P seeds prog) = pda_digest P seeds prog"
    using assms(1) by (simp add: sha256_sized_def pda_digest_def)
  ultimately show ?thesis
    by (simp add: create_program_address_def PublicKey_of_ptr_def pda_digest_def Let_def)
qed

lemma create_program_address_Inl:
  "create_program_address P seeds prog = Inl e \<Longrightarrow>
   e = MaxSeedLengthExceeded \<and> (\<exists>s\<in>set seeds. length s > MAX_SEED_LENGTH)"
  by (auto simp: create_program_address_def Let_def dest: append_seeds_Inl
      split: sum.splits if_splits)

lemma create_program_address_off_curve:
  "create_program_address P seeds prog = Inr (Some a) \<Longrightarrow> \<not> is_on_curve P a"
  by (auto simp: create_program_address_def Let_def split: sum.splits if_splits)

text \<open>The stand-in primitives on concrete inputs.\<close>

lemma test_primitives_sized: "sha256_sized test_primitives"
  by (simp add: sha256_sized_def test_primitives_def PUBLIC_KEY_LENGTH_def)

lemma marker_sum: "sum_list ProgramDerivedAddress = 97"
  by (simp add: ProgramDerivedAddress_def)

lemma zeros_sum: "sum_list (replicate n (0::u8)) = 0"
  by (simp add: sum_list_replicate)

lemma test_digest:
  "pda_digest test_primitives seeds PublicKey_default =
   replicate 31 0 @ [sum_list (concat seeds) + 97]"
  by (simp add: pda_digest_def test_primitives_def PublicKey_default_def marker_sum zeros_sum)

lemma test_on_curve:
  "is_on_curve test_primitives \<lparr>bytes = replicate 31 0 @ [b]\<rparr> \<longleftrightarrow> unat b mod 4 \<noteq> 0"
  by (simp add: is_on_curve_def test_primitives_def)

lemma test_create:
  "create_program_address test_primitives [[1], [2], [n]] PublicKey_default =
     (if unat (n + 100) mod 4 \<noteq> 0 then Inr None
      else Inr (Some \<lparr>bytes = replicate 31 0 @ [n + 100]\<rparr>))"
  using create_program_address_digest
          [OF test_primitives_sized, of "[[1], [2], [n]]" PublicKey_default]
  by (simp add: test_digest test_on_curve add.commute MAX_SEED_LENGTH_def)

lemma find_test_value:
  "find_program_address test_primitives [[1], [2]] PublicKey_default =
     Inr (\<lparr>bytes = replicate 31 0 @ [96]\<rparr>, 252)"
  by (simp add: find_program_address_def test_create)

lemma find_test_fail:
  "find_program_address test_primitives [replicate 33 0] PublicKey_default =
     Inl MaxSeedLengthExceeded"
  by (simp add: find_program_address_def create_program_address_long_seed MAX_SEED_LENGTH_def)

text \<open>
  C6. \<open>create_program_address\<close> fails when a seed is longer than 32 bytes. Otherwise it
  hashes the seeds in order, then the program's bytes, then the marker
  "ProgramDerivedAddress" (given here byte by byte); it returns no address when the digest
  is on the curve and the digest as the address otherwise. The outcome is a function of
  the seeds and the program address.
\<close>

theorem create_program_address_spec:
  assumes "sha256_sized P"
  shows "((\<exists>s\<in>set seeds. length s > 32) \<longrightarrow>
            create_program_address P seeds program_id = Inl MaxSeedLengthExceeded) \<and>
         ((\<forall>s\<in>set seeds. length s \<le> 32) \<longrightarrow>
            create_program_address P seeds program_id =
              (if is_on_curve P \<lparr>bytes = pda_digest P seeds program_id\<rparr> then Inr None
               else Inr (Some \<lparr>bytes = pda_digest P seeds program_id\<rparr>))) \<and>
         pda_digest P seeds program_id =
           crypto_hash_sha256 P
             (concat seeds @ bytes program_id @
              [80, 114, 111, 103, 114, 97, 109, 68, 101, 114, 105, 118, 101, 100, 65,
               100, 100, 114, 101, 115, 115])"
proof (intro conjI impI)
  assume "\<exists>s\<in>set seeds. length s > 32"
  then show "create_program_address P seeds program_id = Inl MaxSeedLengthExceeded"
    by (intro create_program_address_long_seed) (simp add: MAX_SEED_LENGTH_def)
next
  assume "\<forall>s\<in>set seeds. length s \<le> 32"
  then show "create_program_address P seeds program_id =
      (if is_on_curve P \<lparr>bytes = pda_digest P seeds program_id\<rparr> then Inr None
       else Inr (Some \<lparr>bytes = pda_digest P seeds program_id\<rparr>))"
    by (intro create_program_address_digest assms) (simp add: MAX_SEED_LENGTH_def)
next
  show "pda_digest P seeds program_id =
           crypto_hash_sha256 P
             (concat seeds @ bytes program_id @
              [80, 114, 111, 103, 114, 97, 109, 68, 101, 114, 105, 118, 101, 100, 65,
               100, 100, 114, 101, 115, 115])"
    by (simp add: pda_digest_def ProgramDerivedAddress_def)
qed

theorem create_program_address_spec_witness:
  "sha256_sized test_primitives \<and>
   create_program_address test_primitives [replicate 33 0] PublicKey_default =
     Inl MaxSeedLengthExceeded \<and>
   create_program_address test_primitives [[1], [2]] PublicKey_default =
     Inr (Some \<lparr>bytes = replicate 31 0 @ [100]\<rparr>) \<and>
   create_program_address test_primitives [[1, 2], [3]] PublicKey_default = Inr None"
  using test_primitives_sized
    create_program_address_spec [OF test_primitives_sized, of "[replicate 33 0]" PublicKey_default]
    create_program_address_spec [OF test_primitives_sized, of "[[1], [2]]" PublicKey_default]
    create_program_address_spec [OF test_primitives_sized, of "[[1, 2], [3]]" PublicKey_default]
  by (simp add: test_digest test_on_curve)

lemma find_program_address_loop_Inr:
  "find_program_address_loop P seeds prog n0 = Inr (a, n) \<Longrightarrow>
   n \<noteq> 0 \<and> n \<le> n0 \<and> create_program_address P (seeds @ [[n]]) prog = Inr (Some a) \<and>
   (\<forall>m. n < m \<and> m \<le> n0 \<longrightarrow> create_program_address P (seeds @ [[m]]) prog = Inr None)"
proof (induction P seeds prog n0 rule: find_program_address_loop.induct)
  case (1 P seeds programId nonce)
  show ?case
  proof (cases "nonce = 0")
    case True
    with "1.prems" show ?thesis by simp
  next
    case nz: False
    show ?thesis
    proof (cases "create_program_address P (seeds @ [[nonce]]) programId")
      case (Inl e)
      with nz "1.prems" show ?thesis by simp
    next
      case (Inr r)
      show ?thesis
      proof (cases r)
        case None
        with Inr nz "1.prems"
        have rec: "find_program_address_loop P seeds programId (nonce - 1) = Inr (a, n)"
          by simp
        from "1.IH" [OF nz Inr None rec]
        have ih: "n \<noteq> 0" "n \<le> nonce - 1"
          "create_program_address P (seeds @ [[n]]) programId = Inr (Some a)"
          "\<forall>m. n < m \<and> m \<le> nonce - 1 \<longrightarrow>
               create_program_address P (seeds @ [[m]]) programId = Inr None"
          by auto
        have le: "n \<le> nonce"
          using ih(2) nz by (simp add: word_le_nat_alt unat_minus_one)
        have "create_program_address P (seeds @ [[m]]) programId = Inr None"
          if "n < m" "m \<le> nonce" for m
        proof (cases "m = nonce")
          case True
          with Inr None show ?thesis by simp
        next
          case False
          then have "unat m \<noteq> unat nonce"
            by (simp add: word_unat_eq_iff)
          with that nz have "m \<le> nonce - 1"
            by (simp add: word_le_nat_alt unat_minus_one)
          with that ih(4) show ?thesis by simp
        qed
        with ih le show ?thesis by simp
      next
        case (Some b)
        with Inr nz "1.prems" show ?thesis by auto
      qed
    qed
  qed
qed

lemma find_program_address_loop_Inl:
  "find_program_address_loop P seeds prog n0 = Inl e \<Longrightarrow> m \<noteq> 0 \<Longrightarrow> m \<le> n0 \<Longrightarrow>
   create_program_address P (seeds @ [[m]]) prog \<noteq> Inr (Some a)"
proof (induction P seeds prog n0 rule: find_program_address_loop.induct)
  case (1 P seeds programId nonce)
  from "1.prems" have nz: "nonce \<noteq> 0"
    by auto
  show ?case
  proof (cases "create_program_address P (seeds @ [[nonce]]) programId")
    case (Inl e')
    then have "\<exists>s\<in>set seeds. length s > MAX_SEED_LENGTH"
      by (auto dest!: create_program_address_Inl simp: MAX_SEED_LENGTH_def)
    then have "create_program_address P (seeds @ [[m]]) programId = Inl MaxSeedLengthExceeded"
      by (intro create_program_address_long_seed) auto
    then show ?thesis by simp
  next
    case (Inr r)
    show ?thesis
    proof (cases r)
      case None
      show ?thesis
      proof (cases "m = nonce")
        case True
        with Inr None show ?thesis by simp
      next
        case False
        then have "unat m \<noteq> unat nonce"
          by (simp add: word_unat_eq_iff)
        with "1.prems" nz have le: "m \<le> nonce - 1"
          by (simp add: word_le_nat_alt unat_minus_one)
        from Inr None nz "1.prems"
        have rec: "find_program_address_loop P seeds programId (nonce - 1) = Inl e"
          by simp
        from "1.IH" [OF nz Inr None rec \<open>m \<noteq> 0\<close> le] show ?thesis .
      qed
    next
      case (Some b)
      with Inr nz "1.prems" show ?thesis by simp
    qed
  qed
qed

text \<open>
  C7. When \<open>find_program_address\<close> returns \<open>(a, n)\<close>, the nonce \<open>n\<close> is in 1..255, \<open>a\<close>
  is the address \<open>create_program_address\<close> accepts for the seeds followed by the one-byte
  seed \<open>n\<close>, \<open>a\<close> is off the curve, and every larger nonce is rejected: \<open>n\<close> is the first
  accepted nonce of the search from 255 downwards. When it fails, no nonce in 1..255
  gives an accepted address. The result is a function of the seeds and the program
  address, so a repeated call returns the same pair.
\<close>

theorem find_program_address_spec:
  "(find_program_address P seeds prog = Inr (a, n) \<longrightarrow>
      1 \<le> unat n \<and> unat n \<le> 255 \<and>
      create_program_address P (seeds @ [[n]]) prog = Inr (Some a) \<and>
      \<not> is_on_curve P a \<and>
      (\<forall>m. n < m \<longrightarrow> create_program_address P (seeds @ [[m]]) prog = Inr None)) \<and>
   (find_program_address P seeds prog = Inl e \<longrightarrow>
      (\<forall>m b. m \<noteq> 0 \<longrightarrow> create_program_address P (seeds @ [[m]]) prog \<noteq> Inr (Some b)))"
proof (intro conjI impI allI)
  assume r: "find_program_address P seeds prog = Inr (a, n)"
  then have l: "find_program_address_loop P seeds prog 255 = Inr (a, n)"
    by (simp add: find_program_address_def)
  from find_program_address_loop_Inr [OF l]
  have "n \<noteq> 0" and c: "create_program_address P (seeds @ [[n]]) prog = Inr (Some a)"
    and f: "\<And>m. n < m \<Longrightarrow> m \<le> 255 \<Longrightarrow>
              create_program_address P (seeds @ [[m]]) prog = Inr None"
    by auto
  show "1 \<le> unat n" using \<open>n \<noteq> 0\<close> by (simp add: unat_gt_0 Suc_le_eq)
  show "unat n \<le> 255" using unsigned_less [of n, where ?'a = nat] by simp
  show "create_program_address P (seeds @ [[n]]) prog = Inr (Some a)" by (rule c)
  show "\<not> is_on_curve P a" using c by (rule create_program_address_off_curve)
  fix m :: u8
  assume "n < m"
  moreover have "m \<le> 255"
    using unsigned_less [of m, where ?'a = nat] by (simp add: word_le_nat_alt)
  ultimately show "create_program_address P (seeds @ [[m]]) prog = Inr None" by (rule f)
next
  fix m :: u8 and b
  assume "find_program_address P seeds prog = Inl e"
  then have l: "find_program_address_loop P seeds prog 255 = Inl e"
    by (simp add: find_program_address_def)
  assume "m \<noteq> 0"
  moreover have "m \<le> 255"
    using unsigned_less [of m, where ?'a = nat] by (simp add: word_le_nat_alt)
  ultimately show "create_program_address P (seeds @ [[m]]) prog \<noteq> Inr (Some b)"
    by (rule find_program_address_loop_Inl [OF l])
qed

theorem find_program_address_spec_witness:
  "find_program_address test_primitives [[1], [2]] PublicKey_default =
     Inr (\<lparr>bytes = replicate 31 0 @ [96]\<rparr>, 252) \<and>
   \<not> is_on_curve test_primitives \<lparr>bytes = replicate 31 0 @ [96]\<rparr> \<and>
   create_program_address test_primitives [[1], [2], [253]] PublicKey_default = Inr None \<and>
   find_program_address test_primitives [replicate 33 0] PublicKey_default =
     Inl MaxSeedLengthExceeded \<and>
   create_program_address test_primitives [replicate 33 0, [7]] PublicKey_default \<noteq>
     Inr (Some PublicKey_default)"
  using find_program_address_spec [of test_primitives "[[1], [2]]" PublicKey_default
      "\<lparr>bytes = replicate 31 0 @ [96]\<rparr>" 252 MaxSeedLengthExceeded]
    find_program_address_spec [of test_primitives "[replicate 33 0]" PublicKey_default
      PublicKey_default 1 MaxSeedLengthExceeded]
    find_test_value find_test_fail
  by auto

section \<open>The wire serializer: properties\<close>

text \<open>The boundary values the spec lists for the compact length.\<close>

lemma encode_length_boundaries:
  "encode_length 0 = [0]" "encode_length 127 = [127]" "encode_length 128 = [128, 1]"
  "encode_length 16383 = [255, 127]" "encode_length 16384 = [128, 128, 1]"
  by (simp_all add: encode_length.simps)

lemma serialize_keys_concat:
  "serialize_keys buf keys = buf @ concat (map bytes keys)"
  by (induction keys arbitrary: buf) auto

lemma serialize_account_indexes_append:
  "serialize_account_indexes buf idx = buf @ idx"
  by (induction idx arbitrary: buf) auto

lemma serialize_instruction_layout:
  "serialize_instruction buf i = buf @ instruction_layout i"
  by (simp add: serialize_instruction_def instruction_layout_def Let_def
      serialize_account_indexes_append)

lemma serialize_instructions_layout:
  "serialize_instructions buf is = buf @ concat (map instruction_layout is)"
  by (induction "is" arbitrary: buf) (auto simp: serialize_instruction_layout)

lemma serialize_success:
  "numRequiredSignatures (header m) \<noteq> 0 \<Longrightarrow> serialize m [] = Inr (message_layout m)"
  by (simp add: serialize_def message_layout_def Let_def serialize_keys_concat
      serialize_instructions_layout)

lemma keys_section_length:
  "\<forall>k\<in>set keys. wf_key k \<Longrightarrow> length (concat (map bytes keys)) = 32 * length keys"
  by (induction keys) (auto simp: wf_key_def PUBLIC_KEY_LENGTH_def)

lemma test_message_serialized:
  "serialize test_message [] =
     Inr ([1, 0, 1, 2] @ replicate 32 1 @ replicate 32 2 @ replicate 32 3 @
          [1, 1, 1, 0, 2, 7, 8])"
  by (simp add: serialize_def test_message_def test_key_def Let_def
      serialize_instruction_def encode_length.simps)

text \<open>
  C8. A successful \<open>serialize\<close> on an empty buffer produces exactly the layout of the
  spec: the three header bytes, the compact length of the key count, the bytes of every
  key in order (32 each for well-formed keys), the bytes of the blockhash, the compact
  length of the instruction count, and for every instruction its program index, the
  compact length of its index count, its account indexes, the compact length of its
  payload and the payload.
\<close>

theorem serialize_layout:
  "serialize m [] = Inr out \<Longrightarrow>
   out = message_layout m \<and>
   ((\<forall>k\<in>set (accountKeys m). wf_key k) \<longrightarrow>
      length (concat (map bytes (accountKeys m))) = 32 * length (accountKeys m))"
  using serialize_success [of m] keys_section_length [of "accountKeys m"]
  by (auto simp: serialize_def split: if_splits)

theorem serialize_layout_witness:
  "serialize test_message [] =
     Inr ([1, 0, 1, 2] @ replicate 32 1 @ replicate 32 2 @ replicate 32 3 @
          [1, 1, 1, 0, 2, 7, 8]) \<and>
   message_layout test_message =
     [1, 0, 1, 2] @ replicate 32 1 @ replicate 32 2 @ replicate 32 3 @ [1, 1, 1, 0, 2, 7, 8] \<and>
   accountKeys test_message = [test_key 1, test_key 2] \<and>
   wf_key (test_key 1) \<and> wf_key (test_key 2) \<and>
   length (concat (map bytes (accountKeys test_message))) = 64"
  using serialize_layout [OF test_message_serialized] test_message_serialized
  by (simp add: test_message_def test_key_def wf_key_def PUBLIC_KEY_LENGTH_def)

text \<open>
  C10. \<open>serialize\<close> rejects a message whose header requires no signature: it fails for
  every buffer, and on an empty buffer the error is "Message must have at least one
  signature" (a populated buffer is reported first, as "Message is already serialized").
  So the first byte of every output is the signature count, and it is at least 1.
\<close>

theorem serialize_requires_signature:
  "(numRequiredSignatures (header m) = 0 \<longrightarrow>
      (\<exists>e. serialize m buf = Inl e) \<and> serialize m [] = Inl NoRequiredSignature) \<and>
   (serialize m buf = Inr out \<longrightarrow>
      out \<noteq> [] \<and> hd out = numRequiredSignatures (header m) \<and> 1 \<le> unat (hd out))"
proof (intro conjI impI)
  assume "numRequiredSignatures (header m) = 0"
  then show "\<exists>e. serialize m buf = Inl e" and "serialize m [] = Inl NoRequiredSignature"
    by (simp_all add: serialize_def)
next
  assume ok: "serialize m buf = Inr out"
  then have e: "buf = []" and nz: "numRequiredSignatures (header m) \<noteq> 0"
    by (auto simp: serialize_def split: if_splits)
  with ok have "out = message_layout m"
    using serialize_success [of m] by simp
  then show "out \<noteq> []" and h: "hd out = numRequiredSignatures (header m)"
    by (simp_all add: message_layout_def)
  from nz h show "1 \<le> unat (hd out)"
    by (simp add: unat_gt_0 Suc_le_eq)
qed

theorem serialize_requires_signature_witness:
  "numRequiredSignatures (header test_message_unsigned) = 0 \<and>
   serialize test_message_unsigned [] = Inl NoRequiredSignature \<and>
   serialize test_message_unsigned [1] = Inl AlreadySerialized \<and>
   serialize test_message [] =
     Inr ([1, 0, 1, 2] @ replicate 32 1 @ replicate 32 2 @ replicate 32 3 @
          [1, 1, 1, 0, 2, 7, 8]) \<and>
   hd ([1, 0, 1, 2] @ replicate 32 1 @ replicate 32 2 @ replicate 32 3 @
       [1, 1, 1, 0, 2, 7, 8 :: u8]) = 1"
  using serialize_requires_signature [of test_message_unsigned "[]"]
    serialize_requires_signature [of test_message "[]"
      "[1, 0, 1, 2] @ replicate 32 1 @ replicate 32 2 @ replicate 32 3 @ [1, 1, 1, 0, 2, 7, 8]"]
    test_message_serialized
  by (simp add: test_message_unsigned_def header_zero_def serialize_def)

section \<open>The message compiler: properties\<close>

lemma std_find_le: "std_find p xs \<le> length xs"
  by (induction xs) auto

lemma std_find_end_iff: "std_find p xs = length xs \<longleftrightarrow> (\<forall>x\<in>set xs. \<not> p x)"
  by (induction xs) auto

lemma std_find_less_iff: "std_find p xs < length xs \<longleftrightarrow> (\<exists>x\<in>set xs. p x)"
  using std_find_le [of p xs] std_find_end_iff [of p xs] by (auto simp: less_le)

lemma std_find_sat: "\<exists>x\<in>set xs. p x \<Longrightarrow> p (xs ! std_find p xs)"
  by (induction xs) auto

lemma add_accounts_keys:
  "pubkey ` set (add_accounts metas as) = pubkey ` set metas \<union> pubkey ` set as"
  by (induction as arbitrary: metas) (auto simp: std_find_end_iff intro: rev_image_eqI)

lemma collect_accounts_keys:
  "pubkey ` set (collect_accounts metas is) =
   pubkey ` set metas \<union> (\<Union>i\<in>set is. pubkey ` set (accounts i))"
  by (induction "is" arbitrary: metas) (auto simp: add_accounts_keys)

lemma collect_programs_keys:
  "set pids \<subseteq> pubkey ` set metas \<Longrightarrow>
   pubkey ` set (collect_programs pids metas is) = pubkey ` set metas \<union> programId ` set is"
proof (induction "is" arbitrary: pids metas)
  case Nil
  then show ?case by simp
next
  case (Cons i "is")
  show ?case
  proof (cases "std_find (\<lambda>p. p = programId i) pids = length pids")
    case True
    have "set (pids @ [programId i]) \<subseteq>
          pubkey ` set (metas @ [\<lparr>pubkey = programId i, isSigner = False, isWritable = False\<rparr>])"
      using Cons.prems by auto
    from Cons.IH [OF this] True show ?thesis by auto
  next
    case False
    then have "programId i \<in> set pids"
      by (auto simp: std_find_end_iff)
    with Cons.prems have "programId i \<in> pubkey ` set metas" by auto
    with Cons.IH [OF Cons.prems] False show ?thesis by auto
  qed
qed

lemma insert_meta_set: "set (insert_meta a xs) = insert a (set xs)"
  by (induction xs) auto

lemma sort_metas_set: "set (sort_metas xs) = set xs"
  by (induction xs) (auto simp: insert_meta_set)

lemma insert_meta_count:
  "length (filter p (insert_meta a xs)) = length (filter p (a # xs))"
  by (induction xs) auto

lemma sort_metas_count: "length (filter p (sort_metas xs)) = length (filter p xs)"
  by (induction xs) (auto simp: insert_meta_count)

lemma promote_fee_payer_eq:
  "promote_fee_payer f xs =
     \<lparr>pubkey = f, isSigner = True, isWritable = True\<rparr> #
     (take (std_find (\<lambda>m. pubkey m = f) xs) xs @
      drop (Suc (std_find (\<lambda>m. pubkey m = f) xs)) xs)"
proof (cases "std_find (\<lambda>m. pubkey m = f) xs = length xs")
  case True
  then show ?thesis by (simp add: promote_fee_payer_def)
next
  case False
  then have "\<exists>x\<in>set xs. pubkey x = f"
    by (simp add: std_find_end_iff)
  then have "pubkey (xs ! std_find (\<lambda>m. pubkey m = f) xs) = f"
    by (rule std_find_sat)
  then have "(xs ! std_find (\<lambda>m. pubkey m = f) xs)\<lparr>isSigner := True, isWritable := True\<rparr> =
             \<lparr>pubkey = f, isSigner = True, isWritable = True\<rparr>"
    by (cases "xs ! std_find (\<lambda>m. pubkey m = f) xs") auto
  with False show ?thesis by (simp add: promote_fee_payer_def Let_def)
qed

lemma promote_fee_payer_keys:
  "pubkey ` set (promote_fee_payer f xs) = insert f (pubkey ` set xs)"
proof -
  let ?i = "std_find (\<lambda>m. pubkey m = f) xs"
  have "set (take ?i xs @ drop (Suc ?i) xs) \<subseteq> set xs"
    by (auto dest: in_set_takeD in_set_dropD)
  moreover have "x \<in> set (take ?i xs @ drop (Suc ?i) xs) \<or> pubkey x = f" if "x \<in> set xs" for x
  proof -
    from that obtain j where j: "j < length xs" "xs ! j = x"
      by (auto simp: in_set_conv_nth)
    show ?thesis
    proof (cases "j = ?i")
      case True
      with j have "\<exists>y\<in>set xs. pubkey y = f"
        using std_find_less_iff [of "\<lambda>m. pubkey m = f" xs] by simp
      from std_find_sat [OF this] True j have "pubkey x = f"
        by simp
      then show ?thesis ..
    next
      case False
      have "xs = take ?i xs @ drop ?i xs" by simp
      show ?thesis
      proof (cases "j < ?i")
        case True
        with j have "x \<in> set (take ?i xs)"
          by (auto simp: in_set_conv_nth intro!: exI [of _ j])
        then show ?thesis by simp
      next
        case nl: False
        with False have "Suc ?i \<le> j" by simp
        with j have "x \<in> set (drop (Suc ?i) xs)"
          by (auto simp: in_set_conv_nth intro!: exI [of _ "j - Suc ?i"])
        then show ?thesis by simp
      qed
    qed
  qed
  ultimately show ?thesis
    unfolding promote_fee_payer_eq by auto
qed

lemma promote_fee_payer_fresh:
  "f \<notin> pubkey ` set xs \<Longrightarrow>
   promote_fee_payer f xs = \<lparr>pubkey = f, isSigner = True, isWritable = True\<rparr> # xs"
proof -
  assume "f \<notin> pubkey ` set xs"
  then have "std_find (\<lambda>m. pubkey m = f) xs = length xs"
    by (auto simp: std_find_end_iff)
  then show ?thesis
    by (simp add: promote_fee_payer_def)
qed

lemma split_keys_eq:
  "split_keys ms h s u =
     (\<lparr>numRequiredSignatures =
          numRequiredSignatures h + of_nat (length (filter isSigner ms)),
       numReadonlySignedAccounts =
          numReadonlySignedAccounts h +
          of_nat (length (filter (\<lambda>m. isSigner m \<and> \<not> isWritable m) ms)),
       numReadonlyUnsignedAccounts =
          numReadonlyUnsignedAccounts h +
          of_nat (length (filter (\<lambda>m. \<not> isSigner m \<and> \<not> isWritable m) ms))\<rparr>,
      s @ map pubkey (filter isSigner ms),
      u @ map pubkey (filter (\<lambda>m. \<not> isSigner m) ms))"
  by (induction ms arbitrary: h s u) auto

lemma account_indexes_unknown:
  "\<exists>a\<in>set as. pubkey a \<notin> set keys \<Longrightarrow> account_indexes keys as acc = Inl UnknownAccount"
  by (induction as arbitrary: acc) (auto simp: Let_def std_find_end_iff)

lemma account_indexes_known:
  "\<forall>a\<in>set as. pubkey a \<in> set keys \<Longrightarrow>
   account_indexes keys as acc =
     Inr (acc @ map (\<lambda>a. of_nat (std_find (\<lambda>k. k = pubkey a) keys)) as)"
  by (induction as arbitrary: acc) (auto simp: Let_def std_find_end_iff)

lemma compile_instructions_unknown:
  "\<exists>i\<in>set is. \<exists>a\<in>set (accounts i). pubkey a \<notin> set keys \<Longrightarrow>
   compile_instructions keys is acc = Inl UnknownAccount"
proof (induction "is" arbitrary: acc)
  case Nil
  then show ?case by simp
next
  case (Cons i "is")
  show ?case
  proof (cases "\<exists>a\<in>set (accounts i). pubkey a \<notin> set keys")
    case True
    then show ?thesis by (simp add: account_indexes_unknown)
  next
    case False
    with Cons.prems have "\<exists>i\<in>set is. \<exists>a\<in>set (accounts i). pubkey a \<notin> set keys"
      by auto
    from Cons.IH [OF this] False show ?thesis
      by (simp add: account_indexes_known)
  qed
qed

lemma compile_instructions_known:
  "\<forall>i\<in>set is. \<forall>a\<in>set (accounts i). pubkey a \<in> set keys \<Longrightarrow>
   compile_instructions keys is acc =
     Inr (acc @ map (\<lambda>i. \<lparr>c_accounts =
                             map (\<lambda>a. of_nat (std_find (\<lambda>k. k = pubkey a) keys)) (accounts i),
                           c_data = data i,
                           programIdIndex =
                             of_nat (std_find (\<lambda>k. k = programId i) keys)\<rparr>) is)"
  by (induction "is" arbitrary: acc) (auto simp: account_indexes_known)

lemma compile_instructions_Inr:
  assumes "compile_instructions keys is acc = Inr cis"
  shows "(\<forall>i\<in>set is. \<forall>a\<in>set (accounts i). pubkey a \<in> set keys) \<and>
         cis = acc @ map (\<lambda>i. \<lparr>c_accounts =
                             map (\<lambda>a. of_nat (std_find (\<lambda>k. k = pubkey a) keys)) (accounts i),
                           c_data = data i,
                           programIdIndex =
                             of_nat (std_find (\<lambda>k. k = programId i) keys)\<rparr>) is"
proof -
  have k: "\<forall>i\<in>set is. \<forall>a\<in>set (accounts i). pubkey a \<in> set keys"
  proof (rule ccontr)
    assume "\<not> ?thesis"
    then have "\<exists>i\<in>set is. \<exists>a\<in>set (accounts i). pubkey a \<notin> set keys" by simp
    from compile_instructions_unknown [OF this, of acc] assms show False by simp
  qed
  with compile_instructions_known [OF k, of acc] assms show ?thesis by simp
qed

lemma compile_account_metas_keys:
  "pubkey ` set (compile_account_metas msg signers) =
     insert (publicKey (signers ! 0))
       ((\<Union>i\<in>set (tx_instructions msg). pubkey ` set (accounts i)) \<union>
        programId ` set (tx_instructions msg))"
  by (simp add: compile_account_metas_def compile_sorted_metas_def Let_def
      promote_fee_payer_keys sort_metas_set collect_programs_keys collect_accounts_keys)

lemma compile_Inr:
  assumes "compile msg signers = Inr cm"
  shows "tx_instructions msg \<noteq> []" and "signers \<noteq> []"
    and "header cm =
           \<lparr>numRequiredSignatures =
              of_nat (length (filter isSigner (compile_account_metas msg signers))),
            numReadonlySignedAccounts =
              of_nat (length (filter (\<lambda>m. isSigner m \<and> \<not> isWritable m)
                        (compile_account_metas msg signers))),
            numReadonlyUnsignedAccounts =
              of_nat (length (filter (\<lambda>m. \<not> isSigner m \<and> \<not> isWritable m)
                        (compile_account_metas msg signers)))\<rparr>"
    and "accountKeys cm =
           map pubkey (filter isSigner (compile_account_metas msg signers)) @
           map pubkey (filter (\<lambda>m. \<not> isSigner m) (compile_account_metas msg signers))"
    and "compile_instructions (accountKeys cm) (tx_instructions msg) [] = Inr (instructions cm)"
    and "recentBlockhash cm = tx_recentBlockhash msg"
  using assms
  by (auto simp: compile_def split_keys_eq header_zero_def Let_def
      split: if_splits sum.splits)

lemma accountKeys_set:
  assumes "compile msg signers = Inr cm"
  shows "set (accountKeys cm) = pubkey ` set (compile_account_metas msg signers)"
  unfolding compile_Inr(4) [OF assms] by auto

lemma compile_succeeds:
  assumes "tx_instructions msg \<noteq> []" and "signers \<noteq> []"
  shows "\<exists>cm. compile msg signers = Inr cm"
proof -
  let ?ms = "compile_account_metas msg signers"
  let ?keys = "map pubkey (filter isSigner ?ms) @ map pubkey (filter (\<lambda>m. \<not> isSigner m) ?ms)"
  have "set ?keys = pubkey ` set ?ms" by auto
  then have "\<forall>i\<in>set (tx_instructions msg). \<forall>a\<in>set (accounts i). pubkey a \<in> set ?keys"
    unfolding compile_account_metas_keys by auto
  from compile_instructions_known [OF this, of "[]"] assms show ?thesis
    by (simp add: compile_def split_keys_eq Let_def)
qed

lemma unat_of_nat_u8_le: "unat (of_nat n :: u8) \<le> n"
  by (simp add: unat_of_nat)

lemma test_key_eq [simp]: "test_key a = test_key b \<longleftrightarrow> a = b"
  by (simp add: test_key_def)

lemma bytes_less_replicate:
  "bytes_less (replicate n a) (replicate n b) \<longleftrightarrow> 0 < n \<and> a < b"
  by (induction n) auto

lemma test_key_less [simp]: "PublicKey_less (test_key a) (test_key b) \<longleftrightarrow> a < b"
  by (simp add: PublicKey_less_def test_key_def bytes_less_replicate)

lemma test_transaction_compiled:
  "compile test_transaction [test_payer] =
     Inr \<lparr>header = \<lparr>numRequiredSignatures = 2, numReadonlySignedAccounts = 1,
                     numReadonlyUnsignedAccounts = 1\<rparr>,
          accountKeys = [test_key 1, test_key 4, test_key 5, test_key 9],
          recentBlockhash = test_key 3,
          instructions = [\<lparr>c_accounts = [2, 1, 0], c_data = [7, 8], programIdIndex = 3\<rparr>]\<rparr>"
  by (simp add: compile_def compile_account_metas_def compile_sorted_metas_def
      test_transaction_def test_payer_def meta_before_def promote_fee_payer_def
      header_zero_def Let_def)

lemma test_transaction_metas:
  "compile_account_metas test_transaction [test_payer] =
     [\<lparr>pubkey = test_key 1, isSigner = True, isWritable = True\<rparr>,
      \<lparr>pubkey = test_key 4, isSigner = True, isWritable = False\<rparr>,
      \<lparr>pubkey = test_key 5, isSigner = False, isWritable = True\<rparr>,
      \<lparr>pubkey = test_key 9, isSigner = False, isWritable = False\<rparr>]"
  by (simp add: compile_account_metas_def compile_sorted_metas_def
      test_transaction_def test_payer_def meta_before_def promote_fee_payer_def Let_def)

text \<open>
  C1. \<open>program_as_account\<close> has one instruction whose program is also one of its
  accounts. \<open>compile\<close> tests the program id against the program ids pushed so far, not
  against the accounts, and pushes it again: the address is twice in \<open>accountKeys\<close>.
\<close>

theorem program_as_account_duplicate:
  "compile program_as_account [test_payer] =
     Inr \<lparr>header = \<lparr>numRequiredSignatures = 1, numReadonlySignedAccounts = 0,
                     numReadonlyUnsignedAccounts = 1\<rparr>,
          accountKeys = [test_key 1, test_key 9, test_key 9],
          recentBlockhash = test_key 3,
          instructions = [\<lparr>c_accounts = [1], c_data = [], programIdIndex = 1\<rparr>]\<rparr> \<and>
   \<not> distinct [test_key 1, test_key 9, test_key 9]"
  by (simp add: compile_def compile_account_metas_def compile_sorted_metas_def
      program_as_account_def test_payer_def meta_before_def promote_fee_payer_def
      header_zero_def Let_def)

lemma add_accounts_distinct:
  "distinct (map pubkey (metas @ as)) \<Longrightarrow> add_accounts metas as = metas @ as"
proof (induction as arbitrary: metas)
  case Nil
  then show ?case by simp
next
  case (Cons a as)
  from Cons.prems have "pubkey a \<notin> pubkey ` set metas"
    by auto
  then have "\<forall>m\<in>set metas. pubkey m \<noteq> pubkey a"
    by (metis image_eqI)
  then have "std_find (\<lambda>m. pubkey m = pubkey a) metas = length metas"
    by (simp add: std_find_end_iff)
  moreover from Cons.prems have "distinct (map pubkey ((metas @ [a]) @ as))"
    by simp
  ultimately show ?case
    using Cons.IH [of "metas @ [a]"] by simp
qed

lemma signer_key_inj: "i < 256 \<Longrightarrow> j < 256 \<Longrightarrow> signer_key i = signer_key j \<Longrightarrow> i = j"
proof -
  assume b: "i < 256" "j < 256" and "signer_key i = signer_key j"
  then have "(of_nat i :: u8) = of_nat j"
    by (simp add: signer_key_def)
  then have "unat (of_nat i :: u8) = unat (of_nat j :: u8)"
    by simp
  with b show "i = j"
    by (simp add: unat_of_nat)
qed

lemma signer_keys_distinct: "distinct (map signer_key [0..<255])"
  by (rule distinct_map [THEN iffD2]) (auto simp: inj_on_def intro!: signer_key_inj)

lemma signer_key_not_test_key: "b \<noteq> 0 \<Longrightarrow> signer_key i \<noteq> test_key b"
proof
  assume "b \<noteq> 0" and "signer_key i = test_key b"
  then have "hd (replicate 31 0 @ [of_nat i :: u8]) = hd (replicate 32 b)"
    by (simp add: signer_key_def test_key_def)
  with \<open>b \<noteq> 0\<close> show False
    by simp
qed

lemma many_signers_sorted_count:
  "length (filter isSigner (compile_sorted_metas many_signers)) = 255"
proof -
  have "distinct (map pubkey ([] @ map signer_meta [0..<255]))"
    using signer_keys_distinct by (simp add: comp_def signer_meta_def)
  then have "add_accounts [] (map signer_meta [0..<255]) = map signer_meta [0..<255]"
    using add_accounts_distinct [of "[]" "map signer_meta [0..<255]"] by simp
  then show ?thesis
    by (simp add: compile_sorted_metas_def many_signers_def sort_metas_count
        signer_meta_def comp_def)
qed

lemma many_signers_count:
  "length (filter isSigner (compile_account_metas many_signers [test_payer])) = 256"
proof -
  have "pubkey ` set (compile_sorted_metas many_signers) =
        insert (test_key 9) (signer_key ` {0..<255})"
    by (simp add: compile_sorted_metas_def many_signers_def sort_metas_set
        collect_programs_keys collect_accounts_keys add_accounts_keys signer_meta_def
        image_image)
  moreover have "test_key 1 \<noteq> signer_key i" for i
    using signer_key_not_test_key [of 1 i] by (simp add: eq_commute)
  ultimately have "test_key 1 \<notin> pubkey ` set (compile_sorted_metas many_signers)"
    by auto
  then show ?thesis
    using many_signers_sorted_count
    by (simp add: compile_account_metas_def test_payer_def promote_fee_payer_fresh)
qed

text \<open>
  C4 (as amended). When \<open>compile\<close> succeeds the signer list is not empty, the first
  account key is the address of \<open>signers[0]\<close>, and the account-meta list is that address
  as a writable signer followed by the sorted list without the first entry of that address
  (the whole sorted list when it has none). \<open>numRequiredSignatures\<close> is the number of
  signer entries of that list modulo 256, the header fields being 8-bit counters; it is
  that number when there are at most 255 signers.
\<close>

theorem compile_fee_payer_first:
  assumes "compile msg signers = Inr cm"
  shows "signers \<noteq> [] \<and>
         accountKeys cm \<noteq> [] \<and>
         accountKeys cm ! 0 = publicKey (signers ! 0) \<and>
         compile_account_metas msg signers =
           \<lparr>pubkey = publicKey (signers ! 0), isSigner = True, isWritable = True\<rparr> #
           (take (std_find (\<lambda>m. pubkey m = publicKey (signers ! 0)) (compile_sorted_metas msg))
              (compile_sorted_metas msg) @
            drop (Suc (std_find (\<lambda>m. pubkey m = publicKey (signers ! 0))
                        (compile_sorted_metas msg)))
              (compile_sorted_metas msg)) \<and>
         unat (numRequiredSignatures (header cm)) =
           length (filter isSigner (compile_account_metas msg signers)) mod 256 \<and>
         (length (filter isSigner (compile_account_metas msg signers)) \<le> 255 \<longrightarrow>
          unat (numRequiredSignatures (header cm)) =
            length (filter isSigner (compile_account_metas msg signers)))"
proof -
  let ?f = "publicKey (signers ! 0)"
  let ?s = "compile_sorted_metas msg"
  let ?rest = "take (std_find (\<lambda>m. pubkey m = ?f) ?s) ?s @
               drop (Suc (std_find (\<lambda>m. pubkey m = ?f) ?s)) ?s"
  have metas: "compile_account_metas msg signers =
        \<lparr>pubkey = ?f, isSigner = True, isWritable = True\<rparr> # ?rest"
    by (simp add: compile_account_metas_def promote_fee_payer_eq Let_def)
  have keys: "accountKeys cm = ?f # map pubkey (filter isSigner ?rest) @
                map pubkey (filter (\<lambda>m. \<not> isSigner m) ?rest)"
    unfolding compile_Inr(4) [OF assms] metas by simp
  have count: "unat (numRequiredSignatures (header cm)) =
        length (filter isSigner (compile_account_metas msg signers)) mod 256"
    unfolding compile_Inr(3) [OF assms] by (simp add: unat_of_nat)
  from compile_Inr(2) [OF assms] metas keys count show ?thesis
    by simp
qed

theorem compile_fee_payer_first_witness:
  "compile test_transaction [test_payer] =
     Inr \<lparr>header = \<lparr>numRequiredSignatures = 2, numReadonlySignedAccounts = 1,
                     numReadonlyUnsignedAccounts = 1\<rparr>,
          accountKeys = [test_key 1, test_key 4, test_key 5, test_key 9],
          recentBlockhash = test_key 3,
          instructions = [\<lparr>c_accounts = [2, 1, 0], c_data = [7, 8], programIdIndex = 3\<rparr>]\<rparr> \<and>
   publicKey ([test_payer] ! 0) = test_key 1 \<and>
   hd (compile_account_metas test_transaction [test_payer]) =
     \<lparr>pubkey = test_key 1, isSigner = True, isWritable = True\<rparr> \<and>
   length (filter isSigner (compile_account_metas test_transaction [test_payer])) \<le> 255"
proof -
  have "length (filter isSigner (compile_account_metas test_transaction [test_payer])) \<le> 255"
    by (simp add: test_transaction_metas)
  moreover have "compile test_transaction [test_payer] =
     Inr \<lparr>header = \<lparr>numRequiredSignatures = 2, numReadonlySignedAccounts = 1,
                     numReadonlyUnsignedAccounts = 1\<rparr>,
          accountKeys = [test_key 1, test_key 4, test_key 5, test_key 9],
          recentBlockhash = test_key 3,
          instructions = [\<lparr>c_accounts = [2, 1, 0], c_data = [7, 8], programIdIndex = 3\<rparr>]\<rparr> \<and>
   publicKey ([test_payer] ! 0) = test_key 1 \<and>
   hd (compile_account_metas test_transaction [test_payer]) =
     \<lparr>pubkey = test_key 1, isSigner = True, isWritable = True\<rparr>"
    using compile_fee_payer_first [OF test_transaction_compiled] test_transaction_compiled
    by (simp add: test_payer_def)
  ultimately show ?thesis
    by blast
qed

text \<open>
  C4 as stated fails for the signature count: \<open>many_signers\<close> compiles, its account-meta
  list has 256 signers after the fee payer has been added, and the header holds 0.
\<close>

theorem signature_count_counterexample:
  "\<not> isl (compile many_signers [test_payer]) \<and>
   unat (numRequiredSignatures (header (projr (compile many_signers [test_payer])))) = 0 \<and>
   length (filter isSigner (compile_account_metas many_signers [test_payer])) = 256"
proof -
  have "tx_instructions many_signers \<noteq> []" and "[test_payer] \<noteq> []"
    by (simp_all add: many_signers_def)
  from compile_succeeds [OF this] obtain cm
    where cm: "compile many_signers [test_payer] = Inr cm" ..
  from compile_Inr(3) [OF cm] many_signers_count
  have "numRequiredSignatures (header cm) = 0"
    by simp
  with cm many_signers_count show ?thesis
    by simp
qed

lemma compile_account_keys_eq:
  "compile_account_keys msg signers =
     map pubkey (filter isSigner (compile_account_metas msg signers)) @
     map pubkey (filter (\<lambda>m. \<not> isSigner m) (compile_account_metas msg signers))"
  by (simp add: compile_account_keys_def split_keys_eq)

lemma compile_account_keys_set:
  "set (compile_account_keys msg signers) =
     insert (publicKey (signers ! 0))
       ((\<Union>i\<in>set (tx_instructions msg). pubkey ` set (accounts i)) \<union>
        programId ` set (tx_instructions msg))"
proof -
  have "set (compile_account_keys msg signers) = pubkey ` set (compile_account_metas msg signers)"
    unfolding compile_account_keys_eq by auto
  then show ?thesis
    by (simp add: compile_account_metas_keys)
qed

lemma compile_never_unknown: "compile msg signers \<noteq> Inl UnknownAccount"
proof (cases "tx_instructions msg = [] \<or> signers = []")
  case True
  then show ?thesis
    by (auto simp: compile_def)
next
  case False
  then obtain cm where "compile msg signers = Inr cm"
    using compile_succeeds [of msg signers] by auto
  then show ?thesis
    by simp
qed

text \<open>
  C5. In every message that \<open>compile\<close> returns, \<open>accountKeys\<close> is the final account key
  list, and the program index and all account indexes of every compiled instruction are
  positions inside it. The program address and every account address of every
  instruction are in the final account key list of \<open>compile\<close>, whatever the transaction
  and the signers: the condition under which the claim has \<open>compile\<close> fail with "Unknown
  account" is never met, and \<open>compile\<close> never fails with that error.
\<close>

theorem compile_indices_valid:
  "(compile msg signers = Inr cm \<longrightarrow>
      accountKeys cm = compile_account_keys msg signers \<and>
      (\<forall>ci\<in>set (instructions cm).
         unat (programIdIndex ci) < length (accountKeys cm) \<and>
         (\<forall>x\<in>set (c_accounts ci). unat x < length (accountKeys cm)))) \<and>
   (\<forall>i\<in>set (tx_instructions msg).
      programId i \<in> set (compile_account_keys msg signers) \<and>
      (\<forall>a\<in>set (accounts i). pubkey a \<in> set (compile_account_keys msg signers))) \<and>
   compile msg signers \<noteq> Inl UnknownAccount"
proof -
  have present: "\<forall>i\<in>set (tx_instructions msg).
      programId i \<in> set (compile_account_keys msg signers) \<and>
      (\<forall>a\<in>set (accounts i). pubkey a \<in> set (compile_account_keys msg signers))"
    unfolding compile_account_keys_set by auto
  have keys: "accountKeys cm = compile_account_keys msg signers"
    if c: "compile msg signers = Inr cm"
    unfolding compile_Inr(4) [OF c] compile_account_keys_eq ..
  have valid: "unat (programIdIndex ci) < length (accountKeys cm) \<and>
               (\<forall>x\<in>set (c_accounts ci). unat x < length (accountKeys cm))"
    if c: "compile msg signers = Inr cm" and ci: "ci \<in> set (instructions cm)" for ci
  proof
    let ?keys = "accountKeys cm"
    from compile_instructions_Inr [OF compile_Inr(5) [OF c]]
    have cis: "instructions cm =
          map (\<lambda>i. \<lparr>c_accounts =
                       map (\<lambda>a. of_nat (std_find (\<lambda>k. k = pubkey a) ?keys)) (accounts i),
                     c_data = data i,
                     programIdIndex = of_nat (std_find (\<lambda>k. k = programId i) ?keys)\<rparr>)
            (tx_instructions msg)"
      by simp
    from ci cis obtain i where i: "i \<in> set (tx_instructions msg)"
      and ci_eq: "ci = \<lparr>c_accounts =
                       map (\<lambda>a. of_nat (std_find (\<lambda>k. k = pubkey a) ?keys)) (accounts i),
                     c_data = data i,
                     programIdIndex = of_nat (std_find (\<lambda>k. k = programId i) ?keys)\<rparr>"
      by auto
    from present i keys [OF c] have "programId i \<in> set ?keys"
      by simp
    then have "std_find (\<lambda>k. k = programId i) ?keys < length ?keys"
      by (auto simp: std_find_less_iff)
    then show "unat (programIdIndex ci) < length ?keys"
      using unat_of_nat_u8_le [of "std_find (\<lambda>k. k = programId i) ?keys"]
      by (simp add: ci_eq)
    show "\<forall>x\<in>set (c_accounts ci). unat x < length ?keys"
    proof
      fix x
      assume "x \<in> set (c_accounts ci)"
      then obtain a where a: "a \<in> set (accounts i)"
        and x: "x = of_nat (std_find (\<lambda>k. k = pubkey a) ?keys)"
        by (auto simp: ci_eq)
      from present i a keys [OF c] have "pubkey a \<in> set ?keys"
        by simp
      then have "std_find (\<lambda>k. k = pubkey a) ?keys < length ?keys"
        by (auto simp: std_find_less_iff)
      then show "unat x < length ?keys"
        using unat_of_nat_u8_le [of "std_find (\<lambda>k. k = pubkey a) ?keys"]
        by (simp add: x)
    qed
  qed
  from present keys valid compile_never_unknown [of msg signers] show ?thesis
    by blast
qed

theorem compile_indices_valid_witness:
  "compile test_transaction [test_payer] =
     Inr \<lparr>header = \<lparr>numRequiredSignatures = 2, numReadonlySignedAccounts = 1,
                     numReadonlyUnsignedAccounts = 1\<rparr>,
          accountKeys = [test_key 1, test_key 4, test_key 5, test_key 9],
          recentBlockhash = test_key 3,
          instructions = [\<lparr>c_accounts = [2, 1, 0], c_data = [7, 8], programIdIndex = 3\<rparr>]\<rparr> \<and>
   compile_account_keys test_transaction [test_payer] =
     [test_key 1, test_key 4, test_key 5, test_key 9] \<and>
   unat (3 :: u8) < length [test_key 1, test_key 4, test_key 5, test_key 9] \<and>
   unat (2 :: u8) < length [test_key 1, test_key 4, test_key 5, test_key 9] \<and>
   map programId (tx_instructions test_transaction) = [test_key 9] \<and>
   test_key 9 \<in> set (compile_account_keys test_transaction [test_payer]) \<and>
   compile test_transaction [test_payer] \<noteq> Inl UnknownAccount"
proof -
  have k: "compile_account_keys test_transaction [test_payer] =
             [test_key 1, test_key 4, test_key 5, test_key 9]"
    by (simp add: compile_account_keys_eq test_transaction_metas)
  have p: "map programId (tx_instructions test_transaction) = [test_key 9]"
    by (simp add: test_transaction_def)
  have m: "test_key 9 \<in> set (compile_account_keys test_transaction [test_payer])"
    by (simp add: k)
  have u: "unat (3 :: u8) < length [test_key 1, test_key 4, test_key 5, test_key 9]"
    "unat (2 :: u8) < length [test_key 1, test_key 4, test_key 5, test_key 9]"
    by simp_all
  from compile_indices_valid [of test_transaction "[test_payer]"]
  have n: "compile test_transaction [test_payer] \<noteq> Inl UnknownAccount"
    by blast
  from test_transaction_compiled k u p m n show ?thesis
    by blast
qed

section \<open>Base-58 text form: properties\<close>

lemma std_find_nth_distinct:
  "distinct xs \<Longrightarrow> d < length xs \<Longrightarrow> std_find (\<lambda>x. x = xs ! d) xs = d"
proof (induction xs arbitrary: d)
  case Nil
  then show ?case by simp
next
  case (Cons a xs)
  show ?case
  proof (cases d)
    case 0
    then show ?thesis by simp
  next
    case (Suc k)
    with Cons.prems have "xs ! k \<in> set xs" "a \<notin> set xs" by auto
    then have "a \<noteq> xs ! k" by auto
    with Suc Cons show ?thesis by auto
  qed
qed

lemma b58digits_distinct: "distinct b58digits_ordered"
  by (simp add: b58digits_ordered_def)

lemma b58digits_length: "length b58digits_ordered = 58"
  by (simp add: b58digits_ordered_def)

lemma b58_digit_nth: "d < 58 \<Longrightarrow> b58_digit (b58digits_ordered ! d) = Some d"
  by (simp add: b58_digit_def Let_def std_find_nth_distinct b58digits_distinct b58digits_length)

lemma b58_digit_one: "b58_digit CHR ''1'' = Some 0"
  by (simp add: b58_digit_def b58digits_ordered_def)

lemma b58_value_ones: "b58_value 0 (replicate z CHR ''1'' @ s) = b58_value 0 s"
  by (induction z) (simp_all add: b58_digit_one)

lemma b58_value_digits:
  "\<forall>d\<in>set ds. d < 58 \<Longrightarrow>
   b58_value n (map (\<lambda>d. b58digits_ordered ! d) ds) = Some (foldl (\<lambda>a d. a * 58 + d) n ds)"
  by (induction ds arbitrary: n) (simp_all add: b58_digit_nth)

lemma digits58_bound: "\<forall>d\<in>set (digits58 n). d < 58"
proof (induction n rule: digits58.induct)
  case (1 n)
  show ?case
  proof (cases "n = 0")
    case True
    then show ?thesis by (simp add: digits58.simps)
  next
    case False
    with 1 show ?thesis by (subst digits58.simps) simp
  qed
qed

lemma digits58_value: "foldl (\<lambda>a d. a * 58 + d) 0 (rev (digits58 n)) = n"
proof (induction n rule: digits58.induct)
  case (1 n)
  show ?case
  proof (cases "n = 0")
    case True
    then show ?thesis by (simp add: digits58.simps)
  next
    case False
    with 1 show ?thesis by (subst digits58.simps) simp
  qed
qed

lemma nat_of_bytes_snoc: "nat_of_bytes (bs @ [b]) = nat_of_bytes bs * 256 + unat b"
  by (simp add: nat_of_bytes_def)

lemma unat_u8_less: "unat (b :: u8) < 256"
  using unsigned_less [of b, where ?'a = nat] by simp

lemma nat_of_bytes_less: "nat_of_bytes bs < 256 ^ length bs"
proof (induction bs rule: rev_induct)
  case Nil
  then show ?case by (simp add: nat_of_bytes_def)
next
  case (snoc b bs)
  have "nat_of_bytes bs * 256 + unat b < (nat_of_bytes bs + 1) * 256"
    using unat_u8_less [of b] by simp
  also have "\<dots> \<le> 256 ^ length bs * 256"
    using snoc.IH by (intro mult_le_mono1) simp
  finally show ?case
    by (simp add: nat_of_bytes_snoc)
qed

lemma bytes_of_nat_of_bytes: "bytes_of_nat (length bs) (nat_of_bytes bs) = bs"
proof (induction bs rule: rev_induct)
  case Nil
  then show ?case by simp
next
  case (snoc b bs)
  have "(nat_of_bytes bs * 256 + unat b) div 256 = nat_of_bytes bs"
    using unat_u8_less [of b] by simp
  moreover have "(nat_of_bytes bs * 256 + unat b) mod 256 = unat b"
    using unat_u8_less [of b] by simp
  ultimately show ?case
    using snoc.IH by (simp add: nat_of_bytes_snoc)
qed

lemma b58tobin_b58enc: "b58tobin (length bs) (b58enc bs) = Some bs"
  by (simp add: b58tobin_def b58enc_def b58_value_ones b58_value_digits digits58_bound
      digits58_value nat_of_bytes_less bytes_of_nat_of_bytes)

lemma takeWhile_zeros:
  "b \<noteq> 0 \<Longrightarrow> takeWhile (\<lambda>b. b = 0) (replicate n (0::u8) @ b # bs) = replicate n 0"
  by (induction n) auto

lemma nat_of_bytes_zeros: "nat_of_bytes (replicate n 0 @ bs) = nat_of_bytes bs"
proof -
  have "foldl (\<lambda>n b. n * 256 + unat b) 0 (replicate n (0::u8)) = 0"
    by (induction n) auto
  then show ?thesis
    by (simp add: nat_of_bytes_def)
qed

lemma to_base58_255:
  "to_base58 \<lparr>bytes = replicate 31 0 @ [255]\<rparr> = replicate 31 CHR ''1'' @ ''5Q''"
  by (simp add: to_base58_def b58enc_def takeWhile_zeros nat_of_bytes_zeros)
     (simp add: nat_of_bytes_def digits58.simps b58digits_ordered_def)

lemma to_base58_default: "to_base58 PublicKey_default = replicate 32 CHR ''1''"
  using nat_of_bytes_zeros [of 32 "[]"]
  by (simp add: to_base58_def b58enc_def PublicKey_default_def PUBLIC_KEY_LENGTH_def
      digits58.simps nat_of_bytes_def)

lemma digits58_length: "n < 58 ^ k \<Longrightarrow> length (digits58 n) \<le> k"
proof (induction n arbitrary: k rule: digits58.induct)
  case (1 n)
  show ?case
  proof (cases "n = 0")
    case True
    then show ?thesis by (simp add: digits58.simps)
  next
    case False
    with "1.prems" obtain k' where k: "k = Suc k'"
      by (cases k) auto
    with "1.prems" have "n div 58 < 58 ^ k'"
      by (simp add: less_mult_imp_div_less mult.commute)
    from "1.IH" [OF False this] False k show ?thesis
      by (subst digits58.simps) simp
  qed
qed

lemma takeWhile_zeros_replicate:
  "takeWhile (\<lambda>b. b = 0) bs = replicate (length (takeWhile (\<lambda>b. b = 0) bs)) (0::u8)"
  by (induction bs) auto

lemma pow_256_58: "z \<le> 32 \<Longrightarrow> (256::nat) ^ (32 - z) \<le> 58 ^ (44 - z)"
proof -
  assume z: "z \<le> 32"
  have "(256::nat) ^ (32 - z) * 58 ^ z \<le> 256 ^ (32 - z) * 256 ^ z"
    by (intro mult_le_mono2 power_mono) simp_all
  also have "\<dots> = 256 ^ 32"
    using z by (simp flip: power_add)
  also have "\<dots> \<le> (58::nat) ^ 44"
    by simp
  also have "\<dots> = 58 ^ (44 - z) * 58 ^ z"
    using z by (simp flip: power_add)
  finally show ?thesis
    by simp
qed

lemma b58enc_length: "length bs = 32 \<Longrightarrow> length (b58enc bs) \<le> 44"
proof -
  assume len: "length bs = 32"
  let ?z = "length (takeWhile (\<lambda>b. b = 0) bs)"
  have z: "?z \<le> 32"
    using length_takeWhile_le [of "\<lambda>b. b = 0" bs] len by simp
  have "bs = replicate ?z 0 @ dropWhile (\<lambda>b. b = 0) bs"
    using takeWhile_dropWhile_id [of "\<lambda>b. b = 0" bs] takeWhile_zeros_replicate [of bs]
    by simp
  then have "nat_of_bytes bs = nat_of_bytes (dropWhile (\<lambda>b. b = 0) bs)"
    using nat_of_bytes_zeros [of ?z "dropWhile (\<lambda>b. b = 0) bs"] by simp
  also have "\<dots> < 256 ^ length (dropWhile (\<lambda>b. b = 0) bs)"
    by (rule nat_of_bytes_less)
  also have "length (dropWhile (\<lambda>b. b = 0) bs) = 32 - ?z"
    using len by (simp add: dropWhile_eq_drop)
  finally have "nat_of_bytes bs < 58 ^ (44 - ?z)"
    using pow_256_58 [OF z] by simp
  from digits58_length [OF this] z show ?thesis
    by (simp add: b58enc_def)
qed

lemma to_base58_fits: "wf_key k \<Longrightarrow> length (to_base58 k) < 45"
  using b58enc_length [of "bytes k"]
  by (simp add: to_base58_def wf_key_def PUBLIC_KEY_LENGTH_def)

text \<open>
  C9. For every 32-byte value, the address built from its base-58 text is the value again,
  whatever the bytes of the new address held before.
\<close>

theorem base58_round_trip:
  "wf_key v \<Longrightarrow> PublicKey_of_base58 uninit (to_base58 v) = v"
  using b58tobin_b58enc [of "bytes v"]
  by (simp add: PublicKey_of_base58_def to_base58_def wf_key_def)

theorem base58_round_trip_witness:
  "wf_key \<lparr>bytes = replicate 31 0 @ [255]\<rparr> \<and>
   to_base58 \<lparr>bytes = replicate 31 0 @ [255]\<rparr> = replicate 31 CHR ''1'' @ ''5Q'' \<and>
   PublicKey_of_base58 [] (replicate 31 CHR ''1'' @ ''5Q'') = \<lparr>bytes = replicate 31 0 @ [255]\<rparr> \<and>
   wf_key PublicKey_default \<and>
   to_base58 PublicKey_default = replicate 32 CHR ''1'' \<and>
   PublicKey_of_base58 [] (replicate 32 CHR ''1'') = PublicKey_default"
proof -
  have w: "wf_key \<lparr>bytes = replicate 31 0 @ [255]\<rparr>" and d: "wf_key PublicKey_default"
    by (simp_all add: wf_key_def PublicKey_default_def PUBLIC_KEY_LENGTH_def)
  from base58_round_trip [OF w, of "[]"] base58_round_trip [OF d, of "[]"]
    w d to_base58_255 to_base58_default
  show ?thesis
    by simp
qed

section \<open>The result envelope: properties\<close>








section \<open>Keypair: properties\<close>

lemma Keypair_of_secret_member:
  "Keypair_of_secret P uninit sk skip = Inr kp \<Longrightarrow> secretKey kp = uninit"
  by (auto simp: Keypair_of_secret_def split: if_splits prod.splits)

lemma Keypair_of_secret_fails:
  "Keypair_of_secret P uninit sk skip = Inl e \<longleftrightarrow>
   \<not> skip \<and> fst (crypto_sign_ed25519_sk_to_pk P sk) \<noteq> 0 \<and> e = InvalidSecretKey"
  by (auto simp: Keypair_of_secret_def split: if_splits prod.splits)

text \<open>
  C3. The constructor does not store the secret it is given: the member \<open>secretKey\<close> of
  the new \<open>Keypair\<close> is what it was before the call (here 64 zero bytes), not the bytes
  passed in, and with validation skipped the address is the all-zero default.
\<close>

theorem Keypair_secret_not_stored:
  "Keypair_of_secret test_primitives (replicate 64 0) (replicate 32 7) True =
     Inr \<lparr>secretKey = replicate 64 0, publicKey = PublicKey_default\<rparr>"
  by (simp add: Keypair_of_secret_def)

end
